theory Spec2Isabelle
  imports Complex_Main "HOL-Library.AList"
begin

section \<open>JavaScript values and objects\<close>

text \<open>
  The values that travel through the server and the log are parsed JSON. A number is a
  double; every number the modelled code computes with (the version counter, the reconnect
  delays \<open>1000 * 1.5 ^ k\<close> for small \<open>k\<close>) is a dyadic rational far below \<open>2 ^ 53\<close>, which a
  double holds exactly, so numbers are modelled as reals.

  An object is the list of its own properties. Reading a missing property gives
  \<open>undefined\<close>; writing replaces the value of an existing key or adds the key at the end.
\<close>

datatype jsval =
    JUndefined
  | JNull
  | JBool bool
  | JNum real
  | JStr string
  | JArr "jsval list"
  | JObj "(string \<times> jsval) list"

type_synonym jsobj = "(string \<times> jsval) list"

definition get_prop :: "jsobj \<Rightarrow> string \<Rightarrow> jsval" where
  "get_prop obj k = (case map_of obj k of None \<Rightarrow> JUndefined | Some v \<Rightarrow> v)"

definition set_prop :: "string \<Rightarrow> jsval \<Rightarrow> jsobj \<Rightarrow> jsobj" where
  "set_prop k v obj = AList.update k v obj"

text \<open>
  \<open>x > v\<close> for a property value \<open>x\<close> and a number \<open>v\<close>. \<open>undefined\<close> converts to NaN,
  and every comparison with NaN is false; \<open>null\<close> converts to 0 and a boolean to 0 or 1.
  A text, an array or an object is converted by \<open>ToNumber\<close> (\<open>'5' > 0\<close> is true), which
  is not modelled: on those the comparison has no value here, \<open>None\<close>.
\<close>

fun js_gt :: "jsval \<Rightarrow> real \<Rightarrow> bool option" where
  "js_gt (JNum x) v = Some (x > v)"
| "js_gt JUndefined v = Some False"
| "js_gt JNull v = Some (0 > v)"
| "js_gt (JBool b) v = Some ((if b then 1 else 0) > v)"
| "js_gt _ v = None"

text \<open>
  \<open>Array.prototype.filter\<close> with such a test: the elements the test accepts, in order,
  and no value as soon as the test has none on an element.
\<close>

fun filter_by :: "('a \<Rightarrow> bool option) \<Rightarrow> 'a list \<Rightarrow> 'a list option" where
  "filter_by p [] = Some []"
| "filter_by p (x # xs) =
     (case p x of
        None \<Rightarrow> None
      | Some b \<Rightarrow>
          (case filter_by p xs of
             None \<Rightarrow> None
           | Some ys \<Rightarrow> Some (if b then x # ys else ys)))"

text \<open>
  The loop \<open>for (let i = n - 1; i >= 0; i--) if (p(i)) ...\<close> that both undo
  implementations use to find the last matching entry: the index it stops at, if any.
\<close>

fun last_index_by :: "(nat \<Rightarrow> bool) \<Rightarrow> nat \<Rightarrow> nat option" where
  "last_index_by p 0 = None"
| "last_index_by p (Suc i) = (if p i then Some i else last_index_by p i)"


section \<open>The operation log: class DrawingState\<close>

text \<open>
  \<open>addOperation\<close> writes the version into the object it is given and stores that same
  object, so the operations live in a store: an address stands for one JavaScript object,
  \<open>heap\<close> gives the properties it has now, and the three arrays hold addresses.

  The counter is a JavaScript number. It stays exact below \<open>2 ^ 53\<close>; an array holds fewer
  than \<open>2 ^ 32\<close> elements, so a log that was only appended to never gets there, and the
  counter is modelled as a natural number.
\<close>

type_synonym addr = nat

record DrawingState =
  heap :: "addr \<Rightarrow> jsobj"
  operations :: "addr list"
  undoStack :: "addr list"
  redoStack :: "addr list"
  version :: nat

definition newDrawingState :: "(addr \<Rightarrow> jsobj) \<Rightarrow> DrawingState" where
  "newDrawingState h =
     \<lparr>heap = h, operations = [], undoStack = [], redoStack = [], version = 0\<rparr>"

definition addOperation :: "addr \<Rightarrow> DrawingState \<Rightarrow> addr \<times> DrawingState" where
  "addOperation a st =
     (let v = Suc (version st) in
      (a, st\<lparr>heap := (heap st)(a := set_prop ''version'' (JNum (real v)) (heap st a)),
             operations := operations st @ [a],
             undoStack := undoStack st @ [a],
             redoStack := [],
             version := v\<rparr>))"

definition getOperationsAfter :: "real \<Rightarrow> DrawingState \<Rightarrow> addr list option" where
  "getOperationsAfter v st =
     filter_by (\<lambda>a. js_gt (get_prop (heap st a) ''version'') v) (operations st)"

text \<open>
  \<open>undo\<close> compares with \<open>===\<close> and \<open>!==\<close>. The user id it is given is a text, and
  operation ids are texts, for which \<open>===\<close> is equality of values.
\<close>

definition undo :: "string \<Rightarrow> DrawingState \<Rightarrow> addr option \<times> DrawingState" where
  "undo uid st =
     (case last_index_by (\<lambda>i. get_prop (heap st (operations st ! i)) ''userId'' = JStr uid)
             (length (operations st)) of
        None \<Rightarrow> (None, st)
      | Some i \<Rightarrow>
          (let a = operations st ! i in
           (Some a,
            st\<lparr>operations := take i (operations st) @ drop (Suc i) (operations st),
               undoStack := filter (\<lambda>b. get_prop (heap st b) ''operationId''
                                          \<noteq> get_prop (heap st a) ''operationId'')
                              (undoStack st)\<rparr>)))"

text \<open>A run of appends, one call of \<open>addOperation\<close> per object, in order.\<close>

definition appends :: "addr list \<Rightarrow> DrawingState \<Rightarrow> DrawingState" where
  "appends as st = fold (\<lambda>a s. snd (addOperation a s)) as st"

text \<open>The version an entry carries now, when it is a number.\<close>

definition version_of :: "DrawingState \<Rightarrow> addr \<Rightarrow> real option" where
  "version_of st a = (case get_prop (heap st a) ''version'' of JNum x \<Rightarrow> Some x | _ \<Rightarrow> None)"


section \<open>The server: class CollaborativeCanvasServer\<close>

text \<open>
  A socket of the \<open>ws\<close> library, as far as the server uses it: its \<open>readyState\<close> and the
  frames written to it with \<open>send\<close>, oldest first. A frame is kept as the value whose
  \<open>JSON.stringify\<close> text was sent.
\<close>

datatype readyState = CONNECTING | OPEN | CLOSING | CLOSED

record socket =
  readyState :: readyState
  sent :: "jsval list"

record client =
  client_ws :: socket
  client_userId :: string
  color :: string
  cursor :: jsval
  lastPing :: nat

text \<open>
  \<open>clients\<close> is the \<open>Map\<close> from user id to client and \<open>srv_operations\<close> the server's own
  array \<open>this.operations\<close>. The server never creates a \<open>DrawingState\<close>.
\<close>

record server =
  clients :: "string \<rightharpoonup> client"
  srv_operations :: "jsobj list"

text \<open>
  What a handler reads from outside while it runs: \<open>Date.now()\<close> for the \<open>timestamp\<close>
  property, \<open>Date.now()\<close> again inside \<open>generateOperationId\<close>, and the text
  \<open>Math.random().toString(36).substr(2, 9)\<close>.
\<close>

record env =
  now_timestamp :: nat
  now_opid :: nat
  random36 :: string

datatype js_error = TypeError

definition digit_char :: "nat \<Rightarrow> char" where
  "digit_char d =
     (if d = 0 then CHR ''0'' else if d = 1 then CHR ''1'' else if d = 2 then CHR ''2''
      else if d = 3 then CHR ''3'' else if d = 4 then CHR ''4'' else if d = 5 then CHR ''5''
      else if d = 6 then CHR ''6'' else if d = 7 then CHR ''7'' else if d = 8 then CHR ''8''
      else CHR ''9'')"

text \<open>The decimal text of a natural number, as string concatenation writes it.\<close>

fun dec :: "nat \<Rightarrow> string" where
  "dec n = (if n < 10 then [digit_char n] else dec (n div 10) @ [digit_char (n mod 10)])"

declare dec.simps [simp del]

definition generateOperationId :: "env \<Rightarrow> string" where
  "generateOperationId e = ''op_'' @ dec (now_opid e) @ ''_'' @ random36 e"

text \<open>
  \<open>{...v}\<close>: the own enumerable properties an object spread copies. An array and a text
  give their elements under the index keys; \<open>null\<close>, \<open>undefined\<close>, numbers and booleans
  give none.
\<close>

fun spread :: "jsval \<Rightarrow> jsobj" where
  "spread (JObj kvs) = kvs"
| "spread (JArr xs) = zip (map dec [0..<length xs]) xs"
| "spread (JStr s) = zip (map dec [0..<length s]) (map (\<lambda>c. JStr [c]) s)"
| "spread _ = []"

text \<open>
  \<open>message.type\<close> and \<open>message.data\<close>, for a message that is neither \<open>null\<close> nor
  \<open>undefined\<close> (on those the access throws): only an object has such properties.
\<close>

fun member :: "jsval \<Rightarrow> string \<Rightarrow> jsval" where
  "member (JObj kvs) k = get_prop kvs k"
| "member _ k = JUndefined"

definition nullish :: "jsval \<Rightarrow> bool" where
  "nullish v = (v = JNull \<or> v = JUndefined)"

definition ws_send :: "jsval \<Rightarrow> socket \<Rightarrow> socket" where
  "ws_send frame s = s\<lparr>sent := sent s @ [frame]\<rparr>"

text \<open>\<open>excludeUserId\<close> is \<open>None\<close> for the default \<open>null\<close>, which differs from every key.\<close>

definition broadcast :: "jsval \<Rightarrow> string option \<Rightarrow> server \<Rightarrow> server" where
  "broadcast message excludeUserId srv =
     srv\<lparr>clients := (\<lambda>userId.
        case clients srv userId of
          None \<Rightarrow> None
        | Some c \<Rightarrow>
            if Some userId \<noteq> excludeUserId \<and> readyState (client_ws c) = OPEN
            then Some (c\<lparr>client_ws := ws_send message (client_ws c)\<rparr>)
            else Some c)\<rparr>"

definition handleUndo :: "env \<Rightarrow> string \<Rightarrow> server \<Rightarrow> server" where
  "handleUndo e userId srv =
     (case last_index_by (\<lambda>i. get_prop (srv_operations srv ! i) ''userId'' = JStr userId)
             (length (srv_operations srv)) of
        None \<Rightarrow> srv
      | Some i \<Rightarrow>
          (let undoneOp = srv_operations srv ! i;
               undoOp = [(''type'', JStr ''undo''),
                         (''targetOperationId'', get_prop undoneOp ''operationId''),
                         (''userId'', JStr userId),
                         (''timestamp'', JNum (real (now_timestamp e))),
                         (''operationId'', JStr (generateOperationId e))]
           in broadcast (JObj [(''type'', JStr ''undo''), (''data'', JObj undoOp)]) None
                (srv\<lparr>srv_operations := srv_operations srv @ [undoOp]\<rparr>)))"

definition handleMessage :: "env \<Rightarrow> string \<Rightarrow> jsval \<Rightarrow> server \<Rightarrow> js_error + server" where
  "handleMessage e userId message srv =
     (case clients srv userId of
        None \<Rightarrow> Inr srv
      | Some c \<Rightarrow>
          if nullish message then Inl TypeError
          else if member message ''type'' = JStr ''draw'' then
            (let operation =
                   set_prop ''operationId'' (JStr (generateOperationId e))
                     (set_prop ''timestamp'' (JNum (real (now_timestamp e)))
                        (set_prop ''userId'' (JStr userId) (spread (member message ''data''))))
             in Inr (broadcast (JObj [(''type'', JStr ''draw''), (''data'', JObj operation)])
                       (Some userId)
                       (srv\<lparr>srv_operations := srv_operations srv @ [operation]\<rparr>)))
          else if member message ''type'' = JStr ''cursor'' then
            Inr (broadcast (JObj [(''type'', JStr ''cursor''), (''userId'', JStr userId),
                                  (''data'', member message ''data'')])
                   (Some userId)
                   (srv\<lparr>clients := (clients srv)(userId \<mapsto> c\<lparr>cursor := member message ''data''\<rparr>)\<rparr>))
          else if member message ''type'' = JStr ''clear'' then
            (let clearOp = [(''type'', JStr ''clear''),
                            (''userId'', JStr userId),
                            (''timestamp'', JNum (real (now_timestamp e))),
                            (''operationId'', JStr (generateOperationId e))]
             in Inr (broadcast (JObj [(''type'', JStr ''clear''), (''data'', JObj clearOp)])
                       (Some userId)
                       (srv\<lparr>srv_operations := srv_operations srv @ [clearOp]\<rparr>)))
          else if member message ''type'' = JStr ''undo'' then
            Inr (handleUndo e userId srv)
          else Inr srv)"

text \<open>
  The \<open>message\<close> listener of a connection: \<open>parsed\<close> is the result of \<open>JSON.parse\<close>,
  \<open>None\<close> when it throws. Whatever is thrown is caught and logged, and nothing was changed
  before it.
\<close>

definition on_message :: "env \<Rightarrow> string \<Rightarrow> jsval option \<Rightarrow> server \<Rightarrow> server" where
  "on_message e userId parsed srv =
     (case parsed of
        None \<Rightarrow> srv
      | Some message \<Rightarrow>
          (case handleMessage e userId message srv of Inl err \<Rightarrow> srv | Inr srv' \<Rightarrow> srv'))"

text \<open>The frames a registered user's socket has been sent.\<close>

definition frames_of :: "server \<Rightarrow> string \<Rightarrow> jsval list" where
  "frames_of srv userId = (case clients srv userId of None \<Rightarrow> [] | Some c \<Rightarrow> sent (client_ws c))"


section \<open>The client transport: class WebSocketClient\<close>

text \<open>
  \<open>ws\<close> is the browser socket of the latest \<open>connect\<close>, \<open>None\<close> for \<open>null\<close>. The timers
  of \<open>setTimeout\<close> are kept as \<open>scheduled\<close>, the delay of every reconnect timer set so far
  in order, and \<open>pendingReconnects\<close>, the number of them that have not fired; the callback
  reads nothing but the client, so which of them fires makes no difference. The ping
  interval and the user interface updates are left out.
\<close>

record WebSocketClient =
  ws :: "socket option"
  reconnectAttempts :: nat
  maxReconnectAttempts :: nat
  reconnectDelay :: real
  latency :: "real option"
  messageQueue :: "jsval list"
  isConnected :: bool
  scheduled :: "real list"
  pendingReconnects :: nat

definition newWebSocketClient :: WebSocketClient where
  "newWebSocketClient =
     \<lparr>ws = None, reconnectAttempts = 0, maxReconnectAttempts = 5, reconnectDelay = 1000,
      latency = None, messageQueue = [], isConnected = False,
      scheduled = [], pendingReconnects = 0\<rparr>"

definition connect :: "WebSocketClient \<Rightarrow> WebSocketClient" where
  "connect c = c\<lparr>ws := Some \<lparr>readyState = CONNECTING, sent = []\<rparr>\<rparr>"

text \<open>\<open>this.ws.readyState\<close> throws when \<open>this.ws\<close> is \<open>null\<close>.\<close>

definition send :: "jsval \<Rightarrow> WebSocketClient \<Rightarrow> js_error + WebSocketClient" where
  "send message c =
     (if isConnected c then
        (case ws c of
           None \<Rightarrow> Inl TypeError
         | Some s \<Rightarrow>
             if readyState s = OPEN then Inr (c\<lparr>ws := Some (ws_send message s)\<rparr>)
             else Inr (c\<lparr>messageQueue := messageQueue c @ [message]\<rparr>))
      else Inr (c\<lparr>messageQueue := messageQueue c @ [message]\<rparr>))"

text \<open>
  The \<open>while\<close> loop of \<open>processMessageQueue\<close> runs as long as the queue is not empty, and
  \<open>send\<close> puts a message back when the socket is not open: the loop need not end, and not
  returning is the value \<open>None\<close>.
\<close>

partial_function (option) processMessageQueue ::
  "WebSocketClient \<Rightarrow> (js_error + WebSocketClient) option" where
  "processMessageQueue c =
     (case messageQueue c of
        [] \<Rightarrow> Some (Inr c)
      | message # rest \<Rightarrow>
          (case send message (c\<lparr>messageQueue := rest\<rparr>) of
             Inl err \<Rightarrow> Some (Inl err)
           | Inr c' \<Rightarrow> processMessageQueue c'))"

text \<open>
  The handlers \<open>connect\<close> installs on the socket. The browser has set the socket's
  \<open>readyState\<close> to \<open>OPEN\<close> when it calls \<open>onopen\<close> and to \<open>CLOSED\<close> when it calls
  \<open>onclose\<close>.
\<close>

definition onopen :: "WebSocketClient \<Rightarrow> (js_error + WebSocketClient) option" where
  "onopen c =
     processMessageQueue
       (c\<lparr>ws := map_option (\<lambda>s. s\<lparr>readyState := OPEN\<rparr>) (ws c),
          isConnected := True,
          reconnectAttempts := 0\<rparr>)"

definition onclose :: "WebSocketClient \<Rightarrow> WebSocketClient" where
  "onclose c =
     (let c1 = c\<lparr>ws := map_option (\<lambda>s. s\<lparr>readyState := CLOSED\<rparr>) (ws c),
                 isConnected := False\<rparr>
      in if reconnectAttempts c1 < maxReconnectAttempts c1
         then c1\<lparr>scheduled := scheduled c1 @ [reconnectDelay c1],
                 pendingReconnects := Suc (pendingReconnects c1)\<rparr>
         else c1)"

text \<open>The callback given to \<open>setTimeout\<close>, run when one of the pending timers fires.\<close>

definition reconnect_timer :: "WebSocketClient \<Rightarrow> WebSocketClient" where
  "reconnect_timer c =
     (if pendingReconnects c = 0 then c
      else connect (c\<lparr>pendingReconnects := pendingReconnects c - 1,
                      reconnectAttempts := Suc (reconnectAttempts c),
                      reconnectDelay := reconnectDelay c * 1.5\<rparr>))"

text \<open>\<open>close()\<close> on a browser socket starts the closing handshake unless it is under way or done.\<close>

definition ws_close :: "socket \<Rightarrow> socket" where
  "ws_close s =
     (if readyState s = CLOSING \<or> readyState s = CLOSED then s else s\<lparr>readyState := CLOSING\<rparr>)"

definition disconnect :: "WebSocketClient \<Rightarrow> WebSocketClient" where
  "disconnect c = (case ws c of None \<Rightarrow> c | Some s \<Rightarrow> c\<lparr>ws := Some (ws_close s)\<rparr>)"

text \<open>A failed connection: the socket closes, and the reconnect timer (if one was set) fires.\<close>

definition failed_attempt :: "WebSocketClient \<Rightarrow> WebSocketClient" where
  "failed_attempt c = reconnect_timer (onclose c)"


text \<open>A run of \<open>send\<close> calls, one after the other; a throw ends the run.\<close>

fun send_all :: "jsval list \<Rightarrow> WebSocketClient \<Rightarrow> js_error + WebSocketClient" where
  "send_all [] c = Inr c"
| "send_all (m # ms) c = (case send m c of Inl err \<Rightarrow> Inl err | Inr c' \<Rightarrow> send_all ms c')"

text \<open>The two ways \<open>send\<close> takes its \<open>else\<close> branch: the flag is off, or the socket is not open.\<close>

definition not_connected :: "WebSocketClient \<Rightarrow> bool" where
  "not_connected c =
     (\<not> isConnected c \<or> (case ws c of None \<Rightarrow> False | Some s \<Rightarrow> readyState s \<noteq> OPEN))"


section \<open>Sample data\<close>

text \<open>
  Concrete states and messages on which the theorems below are run: a server with the
  open connections \<open>user_a\<close> and \<open>user_b\<close> and a connection \<open>user_c\<close> whose socket has
  closed and has not been swept yet, strokes as the client sends them, and a clock.
\<close>

definition env0 :: env where
  "env0 = \<lparr>now_timestamp = 1700000000000, now_opid = 1700000000001, random36 = ''k3j9x0q1z''\<rparr>"

definition mk_client :: "string \<Rightarrow> readyState \<Rightarrow> client" where
  "mk_client uid rs =
     \<lparr>client_ws = \<lparr>readyState = rs, sent = []\<rparr>, client_userId = uid, color = ''#FF6B6B'',
      cursor = JObj [(''x'', JNum 0), (''y'', JNum 0)], lastPing = 1699999990000\<rparr>"

definition example_server :: server where
  "example_server =
     \<lparr>clients = [''user_a'' \<mapsto> mk_client ''user_a'' OPEN,
                 ''user_b'' \<mapsto> mk_client ''user_b'' OPEN,
                 ''user_c'' \<mapsto> mk_client ''user_c'' CLOSED],
      srv_operations = []\<rparr>"

definition stroke :: "string \<Rightarrow> string \<Rightarrow> jsobj" where
  "stroke uid oid =
     [(''points'', JArr [JObj [(''x'', JNum 1), (''y'', JNum 2)], JObj [(''x'', JNum 3), (''y'', JNum 4)]]),
      (''color'', JStr ''#FF6B6B''), (''width'', JNum 5), (''tool'', JStr ''brush''),
      (''userId'', JStr uid), (''timestamp'', JNum 1699999999000), (''operationId'', JStr oid)]"

definition log_b :: DrawingState where
  "log_b = appends [0, 1]
     (newDrawingState (\<lambda>a. if a = 0 then stroke ''user_b'' ''op_1'' else stroke ''user_b'' ''op_2''))"

definition server_b :: server where
  "server_b = example_server\<lparr>srv_operations := [stroke ''user_b'' ''op_1'', stroke ''user_b'' ''op_2'']\<rparr>"


definition server_a :: server where
  "server_a = example_server\<lparr>srv_operations := [stroke ''user_a'' ''op_1'']\<rparr>"

definition draw_msg :: jsval where
  "draw_msg =
     JObj [(''type'', JStr ''draw''),
           (''data'', JObj [(''points'', JArr [JObj [(''x'', JNum 1), (''y'', JNum 2)],
                                              JObj [(''x'', JNum 3), (''y'', JNum 4)]]),
                            (''color'', JStr ''#FF6B6B''), (''width'', JNum 5),
                            (''tool'', JStr ''brush''), (''userId'', JStr ''mallory'')])]"

definition env1 :: env where
  "env1 = \<lparr>now_timestamp = 1700000005000, now_opid = 1700000005000, random36 = ''p0o9i8u7y''\<rparr>"

text \<open>The client once its first connection has opened.\<close>

definition connected_client :: WebSocketClient where
  "connected_client =
     newWebSocketClient\<lparr>ws := Some \<lparr>readyState = OPEN, sent = []\<rparr>, isConnected := True\<rparr>"


section \<open>Properties of the operation log\<close>

lemma get_prop_set_prop:
  "get_prop (set_prop k v obj) k' = (if k' = k then v else get_prop obj k')"
  by (simp add: get_prop_def set_prop_def update_conv')

lemma last_index_by_None:
  "last_index_by p n = None \<longleftrightarrow> (\<forall>i < n. \<not> p i)"
  by (induction n) (auto simp: less_Suc_eq)

lemma last_index_by_Some:
  "last_index_by p n = Some i \<longleftrightarrow> i < n \<and> p i \<and> (\<forall>j. i < j \<and> j < n \<longrightarrow> \<not> p j)"
proof (induction n)
  case 0
  then show ?case by simp
next
  case (Suc n)
  show ?case
  proof (cases "p n")
    case True
    then show ?thesis
      by (auto simp: less_Suc_eq)
  next
    case False
    then show ?thesis
      using Suc by (auto simp: less_Suc_eq)
  qed
qed

lemma addOperation_fields:
  "operations (snd (addOperation a st)) = operations st @ [a]"
  "version (snd (addOperation a st)) = Suc (version st)"
  "heap (snd (addOperation a st)) a' =
     (if a' = a then set_prop ''version'' (JNum (real (Suc (version st)))) (heap st a)
      else heap st a')"
  by (simp_all add: addOperation_def Let_def)

lemma appends_Nil: "appends [] st = st"
  by (simp add: appends_def)

lemma appends_Cons: "appends (a # as) st = appends as (snd (addOperation a st))"
  by (simp add: appends_def)

lemma appends_operations: "operations (appends as st) = operations st @ as"
  by (induction as arbitrary: st) (simp_all add: appends_Nil appends_Cons addOperation_fields)

lemma appends_version: "version (appends as st) = version st + length as"
  by (induction as arbitrary: st) (simp_all add: appends_Nil appends_Cons addOperation_fields)

lemma appends_heap_other:
  "a \<notin> set as \<Longrightarrow> heap (appends as st) a = heap st a"
  by (induction as arbitrary: st) (auto simp: appends_Nil appends_Cons addOperation_fields)

lemma appends_versions:
  "distinct as \<Longrightarrow> i < length as \<Longrightarrow>
   get_prop (heap (appends as st) (as ! i)) ''version'' = JNum (real (version st + Suc i))"
proof (induction as arbitrary: st i)
  case Nil
  then show ?case by simp
next
  case (Cons a as)
  show ?case
  proof (cases i)
    case 0
    with Cons.prems show ?thesis
      by (simp add: appends_Cons appends_heap_other addOperation_fields get_prop_set_prop)
  next
    case (Suc j)
    with Cons.prems have "j < length as" "distinct as" by simp_all
    from Cons.IH [OF this(2) this(1), of "snd (addOperation a st)"] Suc
    show ?thesis by (simp add: appends_Cons addOperation_fields)
  qed
qed

lemma filter_suffix:
  assumes "\<And>i. i < length xs \<Longrightarrow> P (xs ! i) \<longleftrightarrow> k \<le> i"
  shows "filter P xs = drop k xs"
  using assms
proof (induction xs arbitrary: k)
  case Nil
  then show ?case by simp
next
  case (Cons x xs)
  show ?case
  proof (cases k)
    case 0
    have "\<forall>y \<in> set (x # xs). P y"
      using Cons.prems 0 by (metis in_set_conv_nth le0)
    then show ?thesis using 0 by simp
  next
    case (Suc j)
    have "\<not> P x" using Cons.prems [of 0] Suc by simp
    moreover have "filter P xs = drop j xs"
    proof (rule Cons.IH)
      fix i assume "i < length xs"
      then show "P (xs ! i) \<longleftrightarrow> j \<le> i"
        using Cons.prems [of "Suc i"] Suc by simp
    qed
    ultimately show ?thesis using Suc by simp
  qed
qed

lemma filter_by_total:
  "(\<And>x. x \<in> set xs \<Longrightarrow> p x = Some (q x)) \<Longrightarrow> filter_by p xs = Some (filter q xs)"
  by (induction xs) simp_all

text \<open>Every appended object carries a number as its version afterwards.\<close>

lemma appends_version_number:
  "a \<in> set as \<Longrightarrow> \<exists>n. get_prop (heap (appends as st) a) ''version'' = JNum (real n)"
proof (induction as arbitrary: st)
  case Nil
  then show ?case by simp
next
  case (Cons b as)
  show ?case
  proof (cases "a \<in> set as")
    case True
    from Cons.IH [OF this, of "snd (addOperation b st)"] show ?thesis
      by (simp add: appends_Cons)
  next
    case False
    with Cons.prems have "a = b" by simp
    with False show ?thesis
      by (simp del: of_nat_Suc
          add: appends_Cons appends_heap_other addOperation_fields get_prop_set_prop)
  qed
qed

text \<open>
  Claim C3 as stated fails. \<open>addOperation\<close> writes the version into the object it is
  given and stores that same object. Appending one object twice to an empty log leaves
  two entries that are the same object, and both show version 2: the versions along the
  log are 2, 2, which is not strictly increasing.
\<close>

theorem same_object_appended_twice:
  "operations (appends [0, 0] (newDrawingState (\<lambda>a. [(''userId'', JStr ''u'')]))) = [0, 0]
   \<and> map (version_of (appends [0, 0] (newDrawingState (\<lambda>a. [(''userId'', JStr ''u'')]))))
         (operations (appends [0, 0] (newDrawingState (\<lambda>a. [(''userId'', JStr ''u'')]))))
       = [Some 2, Some 2]"
  by (simp add: appends_def addOperation_def newDrawingState_def version_of_def
      get_prop_def set_prop_def Let_def)

text \<open>The same for any object and any store.\<close>

lemma addOperation_same_object_twice:
  "map (version_of (appends [a, a] (newDrawingState h))) (operations (appends [a, a] (newDrawingState h)))
     = [Some 2, Some 2]"
  by (simp add: appends_def addOperation_def newDrawingState_def version_of_def
      get_prop_set_prop Let_def)

text \<open>
  Claim C3, amended. Start from an empty log and append the objects \<open>as\<close>. Whatever the
  sequence, the entries are \<open>as\<close> in order, the counter is their number, and
  \<open>getOperationsAfter v\<close> returns exactly the entries whose version is greater than \<open>v\<close>,
  in log order. When no object is appended twice, the entry at position \<open>i\<close> carries
  version \<open>i + 1\<close>, so versions increase strictly along the log and no two entries share
  one, and for a natural number \<open>k\<close> the entries after version \<open>k\<close> are the log without its
  first \<open>k\<close> entries.
\<close>

theorem log_versions_increasing:
  "operations (appends as (newDrawingState h)) = as
   \<and> version (appends as (newDrawingState h)) = length as
   \<and> getOperationsAfter v (appends as (newDrawingState h))
       = Some (filter (\<lambda>a. \<exists>x. version_of (appends as (newDrawingState h)) a = Some x \<and> v < x) as)
   \<and> (distinct as \<longrightarrow>
        (\<forall>i < length as.
            version_of (appends as (newDrawingState h)) (as ! i) = Some (real (Suc i)))
      \<and> (\<forall>i j. i < j \<and> j < length as \<longrightarrow>
            (\<exists>x y. version_of (appends as (newDrawingState h)) (as ! i) = Some x
                 \<and> version_of (appends as (newDrawingState h)) (as ! j) = Some y \<and> x < y))
      \<and> getOperationsAfter (real k) (appends as (newDrawingState h)) = Some (drop k as))"
proof -
  let ?st = "appends as (newDrawingState h)"
  have ops: "operations ?st = as"
    by (simp add: appends_operations newDrawingState_def)
  have ver: "version ?st = length as"
    by (simp add: appends_version newDrawingState_def)
  have gt: "js_gt (get_prop (heap ?st a) ''version'') w
              = Some (\<exists>x. version_of ?st a = Some x \<and> w < x)"
    if "a \<in> set as" for a w
  proof -
    from appends_version_number [OF that, of "newDrawingState h"]
    obtain n where "get_prop (heap ?st a) ''version'' = JNum (real n)" by blast
    then show ?thesis by (simp add: version_of_def)
  qed
  have flt: "getOperationsAfter w ?st
               = Some (filter (\<lambda>a. \<exists>x. version_of ?st a = Some x \<and> w < x) as)" for w
    unfolding getOperationsAfter_def ops by (rule filter_by_total) (rule gt)
  have dist: "(\<forall>i < length as. version_of ?st (as ! i) = Some (real (Suc i)))
      \<and> (\<forall>i j. i < j \<and> j < length as \<longrightarrow>
            (\<exists>x y. version_of ?st (as ! i) = Some x \<and> version_of ?st (as ! j) = Some y \<and> x < y))
      \<and> getOperationsAfter (real k) ?st = Some (drop k as)"
    if d: "distinct as"
  proof -
    have raw: "get_prop (heap ?st (as ! i)) ''version'' = JNum (real (Suc i))"
      if "i < length as" for i
      using appends_versions [OF d that, of "newDrawingState h"]
      by (simp add: newDrawingState_def)
    have vo: "version_of ?st (as ! i) = Some (real (Suc i))" if "i < length as" for i
      using raw [OF that] by (simp add: version_of_def)
    have incr: "\<exists>x y. version_of ?st (as ! i) = Some x \<and> version_of ?st (as ! j) = Some y \<and> x < y"
      if "i < j \<and> j < length as" for i j
      using that vo [of i] vo [of j] by simp
    have "filter (\<lambda>a. \<exists>x. version_of ?st a = Some x \<and> real k < x) as = drop k as"
    proof (rule filter_suffix)
      fix i assume "i < length as"
      then show "(\<exists>x. version_of ?st (as ! i) = Some x \<and> real k < x) \<longleftrightarrow> k \<le> i"
        using vo [of i] by (simp del: of_nat_Suc add: less_Suc_eq_le)
    qed
    with flt [of "real k"] have sfx: "getOperationsAfter (real k) ?st = Some (drop k as)"
      by simp
    show ?thesis using vo incr sfx by blast
  qed
  show ?thesis using ops ver flt dist by blast
qed

theorem log_versions_increasing_witness:
  "distinct [3, 7, 5 :: nat]
   \<and> getOperationsAfter 1 (appends [3, 7, 5] (newDrawingState (\<lambda>a. [(''userId'', JStr ''u'')])))
       = Some [7, 5]
   \<and> version (appends [3, 7, 5] (newDrawingState (\<lambda>a. [(''userId'', JStr ''u'')]))) = 3"
  using log_versions_increasing [of "[3, 7, 5]" "\<lambda>a. [(''userId'', JStr ''u'')]" 0 1]
  by simp


section \<open>Undo by an author without entries\<close>

text \<open>
  Claim C10. When no entry of the log is authored by \<open>u\<close>, \<open>DrawingState.undo\<close> returns
  \<open>null\<close> and leaves the whole log state as it was (the entries, the version counter, the
  two stacks); and the server's \<open>handleUndo\<close>, also when reached through an \<open>undo\<close>
  message, leaves the server as it was, so no socket is sent anything.
\<close>

theorem undo_without_entries:
  "((\<forall>a \<in> set (operations st). get_prop (heap st a) ''userId'' \<noteq> JStr u)
      \<longrightarrow> undo u st = (None, st))
   \<and> ((\<forall>op \<in> set (srv_operations srv). get_prop op ''userId'' \<noteq> JStr u)
      \<longrightarrow> handleUndo e u srv = srv
        \<and> on_message e u (Some (JObj [(''type'', JStr ''undo'')])) srv = srv)"
proof (intro conjI impI)
  assume "\<forall>a \<in> set (operations st). get_prop (heap st a) ''userId'' \<noteq> JStr u"
  then have "last_index_by (\<lambda>i. get_prop (heap st (operations st ! i)) ''userId'' = JStr u)
               (length (operations st)) = None"
    by (simp add: last_index_by_None)
  then show "undo u st = (None, st)"
    by (simp add: undo_def)
next
  assume none: "\<forall>op \<in> set (srv_operations srv). get_prop op ''userId'' \<noteq> JStr u"
  then have "last_index_by (\<lambda>i. get_prop (srv_operations srv ! i) ''userId'' = JStr u)
               (length (srv_operations srv)) = None"
    by (simp add: last_index_by_None)
  then show h: "handleUndo e u srv = srv"
    by (simp add: handleUndo_def)
  show "on_message e u (Some (JObj [(''type'', JStr ''undo'')])) srv = srv"
    by (simp add: on_message_def handleMessage_def nullish_def get_prop_def h
        split: option.splits)
qed

theorem undo_without_entries_witness:
  "map (\<lambda>a. get_prop (heap log_b a) ''userId'') (operations log_b) = [JStr ''user_b'', JStr ''user_b'']
   \<and> undo ''user_a'' log_b = (None, log_b)
   \<and> map (\<lambda>op. get_prop op ''userId'') (srv_operations server_b) = [JStr ''user_b'', JStr ''user_b'']
   \<and> handleUndo env0 ''user_a'' server_b = server_b
   \<and> on_message env0 ''user_a'' (Some (JObj [(''type'', JStr ''undo'')])) server_b = server_b"
proof -
  have ops: "operations log_b = [0, 1]"
    by (simp add: log_b_def appends_operations newDrawingState_def)
  have l: "map (\<lambda>a. get_prop (heap log_b a) ''userId'') (operations log_b)
             = [JStr ''user_b'', JStr ''user_b'']"
    unfolding ops
    by (simp add: log_b_def appends_def addOperation_def newDrawingState_def stroke_def
        get_prop_def set_prop_def Let_def)
  have s: "map (\<lambda>op. get_prop op ''userId'') (srv_operations server_b)
             = [JStr ''user_b'', JStr ''user_b'']"
    by (simp add: server_b_def stroke_def get_prop_def)
  have h1: "\<forall>a \<in> set (operations log_b). get_prop (heap log_b a) ''userId'' \<noteq> JStr ''user_a''"
  proof
    fix a assume "a \<in> set (operations log_b)"
    then have "get_prop (heap log_b a) ''userId''
                 \<in> set (map (\<lambda>a. get_prop (heap log_b a) ''userId'') (operations log_b))"
      by simp
    then show "get_prop (heap log_b a) ''userId'' \<noteq> JStr ''user_a''"
      unfolding l by auto
  qed
  have h2: "\<forall>op \<in> set (srv_operations server_b). get_prop op ''userId'' \<noteq> JStr ''user_a''"
  proof
    fix op assume "op \<in> set (srv_operations server_b)"
    then have "get_prop op ''userId'' \<in> set (map (\<lambda>op. get_prop op ''userId'') (srv_operations server_b))"
      by simp
    then show "get_prop op ''userId'' \<noteq> JStr ''user_a''"
      unfolding s by auto
  qed
  from undo_without_entries [of log_b "''user_a''" server_b env0] h1 h2 l s
  show ?thesis by blast
qed


section \<open>Broadcast\<close>

text \<open>
  Claim C4. \<open>broadcast m X\<close> appends the frame \<open>m\<close> to the socket of exactly those registered
  users whose socket is open and whose id is not \<open>X\<close>. Every other registered client is
  left as it was, the excluded one among them; the set of registered users and the
  operations are unchanged. The function has no failing branch: a socket that is not
  open is passed over.
\<close>

theorem broadcast_delivery:
  "frames_of (broadcast m X srv) u =
     (if (\<exists>c. clients srv u = Some c \<and> readyState (client_ws c) = OPEN) \<and> Some u \<noteq> X
      then frames_of srv u @ [m] else frames_of srv u)
   \<and> (\<forall>c. clients srv u = Some c \<and> \<not> (readyState (client_ws c) = OPEN \<and> Some u \<noteq> X)
        \<longrightarrow> clients (broadcast m X srv) u = Some c)
   \<and> frames_of (broadcast m (Some u) srv) u = frames_of srv u
   \<and> dom (clients (broadcast m X srv)) = dom (clients srv)
   \<and> srv_operations (broadcast m X srv) = srv_operations srv"
  by (auto simp: broadcast_def frames_of_def ws_send_def dom_def split: option.splits)

theorem broadcast_delivery_witness:
  "frames_of (broadcast (JStr ''m'') (Some ''user_a'') example_server) ''user_b'' = [JStr ''m'']
   \<and> frames_of (broadcast (JStr ''m'') (Some ''user_a'') example_server) ''user_a'' = []
   \<and> clients example_server ''user_c'' = Some (mk_client ''user_c'' CLOSED)
   \<and> clients (broadcast (JStr ''m'') (Some ''user_a'') example_server) ''user_c''
       = Some (mk_client ''user_c'' CLOSED)"
proof -
  have b: "clients example_server ''user_b'' = Some (mk_client ''user_b'' OPEN)"
    and c: "clients example_server ''user_c'' = Some (mk_client ''user_c'' CLOSED)"
    and a: "clients example_server ''user_a'' = Some (mk_client ''user_a'' OPEN)"
    by (simp_all add: example_server_def)
  have fb: "frames_of example_server ''user_b'' = []" and fa: "frames_of example_server ''user_a'' = []"
    by (simp_all add: frames_of_def a b mk_client_def)
  have "frames_of (broadcast (JStr ''m'') (Some ''user_a'') example_server) ''user_b'' = [JStr ''m'']"
    using broadcast_delivery [of "JStr ''m''" "Some ''user_a''" example_server "''user_b''"] b fb
    by (simp add: mk_client_def)
  moreover have "frames_of (broadcast (JStr ''m'') (Some ''user_a'') example_server) ''user_a'' = []"
    using broadcast_delivery [of "JStr ''m''" "Some ''user_a''" example_server "''user_a''"] fa
    by simp
  moreover have "clients (broadcast (JStr ''m'') (Some ''user_a'') example_server) ''user_c''
                   = Some (mk_client ''user_c'' CLOSED)"
    using broadcast_delivery [of "JStr ''m''" "Some ''user_a''" example_server "''user_c''"] c
    by (simp add: mk_client_def)
  ultimately show ?thesis using c by simp
qed


section \<open>Queueing while disconnected\<close>

lemma send_queues: "not_connected c \<Longrightarrow> send m c = Inr (c\<lparr>messageQueue := messageQueue c @ [m]\<rparr>)"
  by (auto simp: send_def not_connected_def split: option.splits)

lemma send_all_queues:
  "not_connected c \<Longrightarrow> send_all ms c = Inr (c\<lparr>messageQueue := messageQueue c @ ms\<rparr>)"
proof (induction ms arbitrary: c)
  case Nil
  then show ?case by simp
next
  case (Cons m ms)
  have "not_connected (c\<lparr>messageQueue := messageQueue c @ [m]\<rparr>)"
    using Cons.prems by (simp add: not_connected_def)
  from Cons.IH [OF this] Cons.prems show ?case
    by (simp add: send_queues)
qed

lemma processMessageQueue_open:
  "isConnected c \<Longrightarrow> ws c = Some s \<Longrightarrow> readyState s = OPEN \<Longrightarrow>
   processMessageQueue c =
     Some (Inr (c\<lparr>ws := Some (s\<lparr>sent := sent s @ messageQueue c\<rparr>), messageQueue := []\<rparr>))"
proof (induction "messageQueue c" arbitrary: c s)
  case Nil
  then have "c\<lparr>ws := Some (s\<lparr>sent := sent s @ messageQueue c\<rparr>), messageQueue := []\<rparr> = c"
    by simp
  moreover have "processMessageQueue c = Some (Inr c)"
    using Nil by (subst processMessageQueue.simps) simp
  ultimately show ?case by simp
next
  case (Cons m rest)
  let ?c' = "c\<lparr>messageQueue := rest, ws := Some (ws_send m s)\<rparr>"
  have snd: "send m (c\<lparr>messageQueue := rest\<rparr>) = Inr ?c'"
    using Cons.prems by (simp add: send_def)
  have "processMessageQueue c = processMessageQueue ?c'"
    using Cons.hyps(2) [symmetric] snd by (subst processMessageQueue.simps) simp
  also have "\<dots> = Some (Inr (?c'\<lparr>ws := Some ((ws_send m s)\<lparr>sent := sent (ws_send m s) @ messageQueue ?c'\<rparr>),
                                   messageQueue := []\<rparr>))"
    by (rule Cons.hyps(1)) (use Cons.prems in \<open>simp_all add: ws_send_def\<close>)
  also have "\<dots> = Some (Inr (c\<lparr>ws := Some (s\<lparr>sent := sent s @ messageQueue c\<rparr>), messageQueue := []\<rparr>))"
    using Cons.hyps(2) [symmetric] by (simp add: ws_send_def)
  finally show ?case .
qed

lemma onopen_flushes:
  assumes "ws c = Some s"
  shows "onopen c =
     Some (Inr (c\<lparr>ws := Some (s\<lparr>readyState := OPEN, sent := sent s @ messageQueue c\<rparr>),
                 isConnected := True, reconnectAttempts := 0, messageQueue := []\<rparr>))"
proof -
  let ?c1 = "c\<lparr>ws := map_option (\<lambda>s. s\<lparr>readyState := OPEN\<rparr>) (ws c),
               isConnected := True, reconnectAttempts := 0\<rparr>"
  have "processMessageQueue ?c1 =
     Some (Inr (?c1\<lparr>ws := Some ((s\<lparr>readyState := OPEN\<rparr>)\<lparr>sent := sent (s\<lparr>readyState := OPEN\<rparr>) @ messageQueue ?c1\<rparr>),
                   messageQueue := []\<rparr>))"
    by (rule processMessageQueue_open) (simp_all add: assms)
  then show ?thesis by (simp add: onopen_def)
qed

text \<open>The other handlers do not touch the queue.\<close>

lemma queue_kept:
  "messageQueue (onclose c) = messageQueue c"
  "messageQueue (reconnect_timer c) = messageQueue c"
  "messageQueue (connect c) = messageQueue c"
  "messageQueue (disconnect c) = messageQueue c"
  by (simp_all add: onclose_def reconnect_timer_def connect_def disconnect_def Let_def
      split: option.splits)

text \<open>
  Called while not connected with a message waiting, \<open>processMessageQueue\<close> takes the
  message off, \<open>send\<close> puts it back, and the loop never ends.
\<close>

lemma processMessageQueue_returns:
  assumes "processMessageQueue c0 = Some r0"
  shows "\<not> (not_connected c0 \<and> messageQueue c0 \<noteq> [])"
proof (rule processMessageQueue.raw_induct
    [where P = "\<lambda>c r. \<not> (not_connected c \<and> messageQueue c \<noteq> [])", OF _ assms])
  fix f :: "WebSocketClient \<Rightarrow> (js_error + WebSocketClient) option" and c r
  assume IH: "\<And>x y. f x = Some y \<Longrightarrow> \<not> (not_connected x \<and> messageQueue x \<noteq> [])"
  assume body: "(case messageQueue c of [] \<Rightarrow> Some (Inr c)
                 | message # rest \<Rightarrow>
                     (case send message (c\<lparr>messageQueue := rest\<rparr>) of
                        Inl err \<Rightarrow> Some (Inl err) | Inr c' \<Rightarrow> f c')) = Some r"
  show "\<not> (not_connected c \<and> messageQueue c \<noteq> [])"
  proof
    assume a: "not_connected c \<and> messageQueue c \<noteq> []"
    then obtain m rest where q: "messageQueue c = m # rest"
      by (cases "messageQueue c") auto
    have nc: "not_connected (c\<lparr>messageQueue := rest\<rparr>)"
      using a by (simp add: not_connected_def)
    have "send m (c\<lparr>messageQueue := rest\<rparr>) = Inr (c\<lparr>messageQueue := rest @ [m]\<rparr>)"
      using send_queues [OF nc, of m] by simp
    with body q have "f (c\<lparr>messageQueue := rest @ [m]\<rparr>) = Some r"
      by simp
    from IH [OF this] a show False
      by (simp add: not_connected_def)
  qed
qed

lemma processMessageQueue_never_returns:
  "not_connected c \<Longrightarrow> messageQueue c \<noteq> [] \<Longrightarrow> processMessageQueue c = None"
  using processMessageQueue_returns [of c] by (cases "processMessageQueue c") auto

text \<open>
  Claim C8. While the transport is not connected every \<open>send\<close> appends its message to
  the queue and changes nothing else. When a socket opens, \<open>onopen\<close> returns (the loop of
  \<open>processMessageQueue\<close> ends, nothing is thrown) with the whole queue written to that
  socket in queue order and the queue empty. So the messages \<open>ms\<close> sent while
  disconnected leave on the socket after what was queued before them, in the order of
  the calls, none missing and none twice. Between the calls and the opening, a close
  event, a reconnect timer, \<open>connect\<close> and \<open>disconnect\<close> leave the queue as it is.
\<close>

theorem queue_flushed_in_order:
  "(not_connected c \<longrightarrow> send_all ms c = Inr (c\<lparr>messageQueue := messageQueue c @ ms\<rparr>))
   \<and> (ws c1 = Some s \<longrightarrow>
        onopen c1 =
          Some (Inr (c1\<lparr>ws := Some (s\<lparr>readyState := OPEN, sent := sent s @ messageQueue c1\<rparr>),
                       isConnected := True, reconnectAttempts := 0, messageQueue := []\<rparr>)))
   \<and> (not_connected c \<and> ws c = Some s \<longrightarrow>
        (\<exists>c2 c3. send_all ms c = Inr c2 \<and> onopen c2 = Some (Inr c3)
             \<and> ws c3 = Some (s\<lparr>readyState := OPEN, sent := sent s @ messageQueue c @ ms\<rparr>)
             \<and> messageQueue c3 = []))
   \<and> messageQueue (onclose c) = messageQueue c
   \<and> messageQueue (reconnect_timer c) = messageQueue c
   \<and> messageQueue (connect c) = messageQueue c
   \<and> messageQueue (disconnect c) = messageQueue c"
  by (simp add: send_all_queues onopen_flushes queue_kept)

theorem queue_flushed_in_order_witness:
  "not_connected (connect newWebSocketClient)
   \<and> ws (connect newWebSocketClient) = Some \<lparr>readyState = CONNECTING, sent = []\<rparr>
   \<and> (\<exists>c2 c3. send_all [JStr ''m1'', JStr ''m2'', JStr ''m3''] (connect newWebSocketClient) = Inr c2
         \<and> onopen c2 = Some (Inr c3)
         \<and> ws c3 = Some \<lparr>readyState = OPEN, sent = [JStr ''m1'', JStr ''m2'', JStr ''m3'']\<rparr>
         \<and> messageQueue c3 = [])"
proof -
  let ?c = "connect newWebSocketClient"
  let ?s = "\<lparr>readyState = CONNECTING, sent = []\<rparr>"
  let ?ms = "[JStr ''m1'', JStr ''m2'', JStr ''m3'']"
  have nc: "not_connected ?c"
    by (simp add: not_connected_def connect_def newWebSocketClient_def)
  have w: "ws ?c = Some ?s"
    by (simp add: connect_def)
  have q: "messageQueue ?c = []"
    by (simp add: connect_def newWebSocketClient_def)
  from queue_flushed_in_order [of ?c ?ms ?c ?s] nc w
  have "\<exists>c2 c3. send_all ?ms ?c = Inr c2 \<and> onopen c2 = Some (Inr c3)
          \<and> ws c3 = Some (?s\<lparr>readyState := OPEN, sent := sent ?s @ messageQueue ?c @ ?ms\<rparr>)
          \<and> messageQueue c3 = []"
    by blast
  then show ?thesis using nc w q by simp
qed

section \<open>Reconnecting\<close>


text \<open>The sample connected client is the new client after \<open>connect\<close> and the open event.\<close>

lemma connected_client_reached:
  "onopen (connect newWebSocketClient) = Some (Inr connected_client)"
  by (simp add: onopen_flushes [of _ "\<lparr>readyState = CONNECTING, sent = []\<rparr>"]
      connect_def newWebSocketClient_def connected_client_def)

text \<open>In general \<open>onopen\<close> resets the counter and never writes \<open>reconnectDelay\<close>.\<close>

lemma onopen_keeps_delay:
  "ws c = Some s \<Longrightarrow>
   \<exists>c'. onopen c = Some (Inr c') \<and> reconnectAttempts c' = 0 \<and> reconnectDelay c' = reconnectDelay c"
  by (simp add: onopen_flushes)

text \<open>
  Claim C7, on the code. A new client connects, the connection fails, the first reconnect
  is made after 1000 and succeeds. \<open>onopen\<close> sets the counter back to 0 and leaves
  \<open>reconnectDelay\<close> at 1500: when this connection closes, the first reconnect of the new
  outage is set after 1500, not after the base delay 1000.
\<close>

theorem delay_not_reset_on_open:
  "\<exists>c. onopen (failed_attempt (connect newWebSocketClient)) = Some (Inr c)
       \<and> isConnected c = True
       \<and> reconnectAttempts c = 0
       \<and> reconnectDelay c = 1500
       \<and> scheduled c = [1000]
       \<and> scheduled (onclose c) = [1000, 1500]"
proof -
  let ?c1 = "failed_attempt (connect newWebSocketClient)"
  have w: "ws ?c1 = Some \<lparr>readyState = CONNECTING, sent = []\<rparr>"
    by (simp add: failed_attempt_def reconnect_timer_def onclose_def connect_def
        newWebSocketClient_def Let_def)
  show ?thesis
    unfolding onopen_flushes [OF w]
    by (simp add: failed_attempt_def reconnect_timer_def onclose_def connect_def
        newWebSocketClient_def Let_def)
qed


section \<open>Explicit disconnect\<close>

text \<open>
  Claim C9 as stated fails. On the connected client \<open>disconnect\<close> starts closing the
  socket; the close event that follows sets a reconnect timer with delay 1000, and when
  it fires \<open>connect\<close> runs again (a new socket, attempt 1). And a reconnect that was
  pending when \<open>disconnect\<close> was called is still pending after it and connects when it
  fires.
\<close>

theorem disconnect_then_reconnects:
  "disconnect connected_client = connected_client\<lparr>ws := Some \<lparr>readyState = CLOSING, sent = []\<rparr>\<rparr>
   \<and> pendingReconnects (onclose (disconnect connected_client)) = 1
   \<and> scheduled (onclose (disconnect connected_client)) = [1000]
   \<and> ws (reconnect_timer (onclose (disconnect connected_client)))
       = Some \<lparr>readyState = CONNECTING, sent = []\<rparr>
   \<and> reconnectAttempts (reconnect_timer (onclose (disconnect connected_client))) = 1
   \<and> pendingReconnects (disconnect (onclose (connect newWebSocketClient))) = 1
   \<and> ws (reconnect_timer (disconnect (onclose (connect newWebSocketClient))))
       = Some \<lparr>readyState = CONNECTING, sent = []\<rparr>"
  by (simp add: disconnect_def ws_close_def onclose_def reconnect_timer_def connect_def
      connected_client_def newWebSocketClient_def Let_def)

text \<open>
  Claim C9, amended. \<open>disconnect\<close> calls \<open>close\<close> on the current socket, if there is one,
  and changes nothing else: no timer is cancelled. The close event that follows is
  handled like any other: the client is then not connected, and a reconnect is
  scheduled after the current delay exactly when fewer than \<open>maxReconnectAttempts\<close>
  attempts have been made.
\<close>

theorem disconnect_only_closes:
  "disconnect c = c\<lparr>ws := map_option ws_close (ws c)\<rparr>
   \<and> pendingReconnects (disconnect c) = pendingReconnects c
   \<and> scheduled (disconnect c) = scheduled c
   \<and> isConnected (onclose (disconnect c)) = False
   \<and> (reconnectAttempts c < maxReconnectAttempts c \<longrightarrow>
        scheduled (onclose (disconnect c)) = scheduled c @ [reconnectDelay c]
        \<and> pendingReconnects (onclose (disconnect c)) = Suc (pendingReconnects c))
   \<and> (\<not> reconnectAttempts c < maxReconnectAttempts c \<longrightarrow>
        scheduled (onclose (disconnect c)) = scheduled c
        \<and> pendingReconnects (onclose (disconnect c)) = pendingReconnects c)"
  by (cases "ws c") (simp_all add: disconnect_def onclose_def Let_def)

theorem disconnect_only_closes_witness:
  "reconnectAttempts connected_client < maxReconnectAttempts connected_client
   \<and> scheduled (onclose (disconnect connected_client)) = [1000]
   \<and> pendingReconnects (onclose (disconnect connected_client)) = 1
   \<and> isConnected (onclose (disconnect connected_client)) = False"
proof -
  have lt: "reconnectAttempts connected_client < maxReconnectAttempts connected_client"
    by (simp add: connected_client_def newWebSocketClient_def)
  have v: "scheduled connected_client = []" "reconnectDelay connected_client = 1000"
    "pendingReconnects connected_client = 0"
    by (simp_all add: connected_client_def newWebSocketClient_def)
  from disconnect_only_closes [of connected_client] lt
  have "scheduled (onclose (disconnect connected_client))
          = scheduled connected_client @ [reconnectDelay connected_client]
        \<and> pendingReconnects (onclose (disconnect connected_client))
          = Suc (pendingReconnects connected_client)
        \<and> isConnected (onclose (disconnect connected_client)) = False"
    by blast
  then show ?thesis using lt v by simp
qed


section \<open>Messages the server receives\<close>

text \<open>
  Claim C5, on the code. \<open>handleMessage\<close> has no case for \<open>ping\<close>: whoever sends it and
  whatever the timestamp, the server is left exactly as it was, so no socket is sent a
  frame, the sender's included. In the sample server \<open>user_a\<close> sends a ping and has
  received nothing afterwards. (The client does send \<open>{type: 'ping', timestamp}\<close> every 30
  seconds and computes its latency from a \<open>pong\<close> frame.)
\<close>

theorem ping_gets_no_reply:
  "handleMessage e u (JObj [(''type'', JStr ''ping''), (''timestamp'', ts)]) srv = Inr srv
   \<and> on_message e u (Some (JObj [(''type'', JStr ''ping''), (''timestamp'', ts)])) srv = srv
   \<and> frames_of (on_message env0 ''user_a''
                   (Some (JObj [(''type'', JStr ''ping''), (''timestamp'', JNum 1234567890)]))
                   example_server) ''user_a'' = []"
proof -
  have h: "handleMessage e' u' (JObj [(''type'', JStr ''ping''), (''timestamp'', ts')]) srv' = Inr srv'"
    for e' u' ts' srv'
    by (simp add: handleMessage_def nullish_def get_prop_def split: option.splits)
  have "frames_of example_server ''user_a'' = []"
    by (simp add: frames_of_def example_server_def mk_client_def)
  then show ?thesis by (simp add: on_message_def h)
qed

text \<open>
  What \<open>handleMessage\<close> does with a \<open>draw\<close> message of a registered user: the operation
  is \<open>message.data\<close> with \<open>userId\<close>, \<open>timestamp\<close> and \<open>operationId\<close> written over it, so the
  author is the connection's id whatever the client sent; it is pushed on the server's
  array; every other registered user with an open socket is sent it and the sender is
  not. The \<open>version\<close> property is not written: it is whatever \<open>message.data\<close> held.
\<close>

lemma draw_handled:
  assumes "clients srv u = Some c" and "member message ''type'' = JStr ''draw''"
  shows "\<exists>srv' op.
           handleMessage e u message srv = Inr srv'
         \<and> srv_operations srv' = srv_operations srv @ [op]
         \<and> get_prop op ''userId'' = JStr u
         \<and> get_prop op ''version'' = get_prop (spread (member message ''data'')) ''version''
         \<and> frames_of srv' u = frames_of srv u
         \<and> (\<forall>u' c'. u' \<noteq> u \<and> clients srv u' = Some c' \<longrightarrow>
               frames_of srv' u' =
                 (if readyState (client_ws c') = OPEN
                  then frames_of srv u' @ [JObj [(''type'', JStr ''draw''), (''data'', JObj op)]]
                  else frames_of srv u'))"
proof -
  have nn: "\<not> nullish message"
    using assms(2) by (auto simp: nullish_def)
  show ?thesis
    using assms nn
    by (simp add: handleMessage_def Let_def get_prop_set_prop broadcast_def frames_of_def
        ws_send_def)
qed

text \<open>
  Claim C1, on the code. \<open>user_a\<close> sends a stroke that names another author. The stored
  operation is authored by \<open>user_a\<close>, \<open>user_b\<close> receives it and \<open>user_a\<close> and the closed
  \<open>user_c\<close> do not; but the operation, stored and broadcast, has no version:
  \<open>addOperation\<close> is not called.
\<close>

theorem draw_assigns_no_version:
  "\<exists>srv' op.
      handleMessage env0 ''user_a'' draw_msg example_server = Inr srv'
    \<and> srv_operations srv' = [op]
    \<and> get_prop op ''userId'' = JStr ''user_a''
    \<and> get_prop op ''version'' = JUndefined
    \<and> frames_of srv' ''user_b'' = [JObj [(''type'', JStr ''draw''), (''data'', JObj op)]]
    \<and> frames_of srv' ''user_a'' = []
    \<and> frames_of srv' ''user_c'' = []"
  by (simp add: handleMessage_def draw_msg_def example_server_def mk_client_def nullish_def
      Let_def get_prop_def set_prop_def broadcast_def frames_of_def ws_send_def)


section \<open>Undo by an author with entries\<close>

text \<open>
  \<open>handleUndo\<close>, when the user's last entry is at index \<open>i\<close>: the log keeps every entry and
  gains a marker that names the id of entry \<open>i\<close>, and the marker is sent to every
  registered user with an open socket, the sender too.
\<close>

lemma handleUndo_appends_marker:
  assumes "last_index_by (\<lambda>i. get_prop (srv_operations srv ! i) ''userId'' = JStr u)
             (length (srv_operations srv)) = Some i"
  shows "\<exists>marker.
           srv_operations (handleUndo e u srv) = srv_operations srv @ [marker]
         \<and> get_prop marker ''type'' = JStr ''undo''
         \<and> get_prop marker ''userId'' = JStr u
         \<and> get_prop marker ''targetOperationId'' = get_prop (srv_operations srv ! i) ''operationId''
         \<and> (\<forall>u' c'. clients srv u' = Some c' \<longrightarrow>
               frames_of (handleUndo e u srv) u' =
                 (if readyState (client_ws c') = OPEN
                  then frames_of srv u' @ [JObj [(''type'', JStr ''undo''), (''data'', JObj marker)]]
                  else frames_of srv u'))"
  using assms
  by (simp add: handleUndo_def Let_def get_prop_def broadcast_def frames_of_def ws_send_def)

text \<open>
  \<open>DrawingState.undo\<close> in the same situation returns entry \<open>i\<close> and takes it out of the
  log, leaving the objects and the version counter alone.
\<close>

lemma undo_removes_last_entry:
  assumes "last_index_by (\<lambda>i. get_prop (heap st (operations st ! i)) ''userId'' = JStr u)
             (length (operations st)) = Some i"
  shows "fst (undo u st) = Some (operations st ! i)
       \<and> operations (snd (undo u st)) = take i (operations st) @ drop (Suc i) (operations st)
       \<and> length (operations (snd (undo u st))) = length (operations st) - 1
       \<and> version (snd (undo u st)) = version st
       \<and> heap (snd (undo u st)) = heap st"
proof -
  have "i < length (operations st)"
    using assms by (simp add: last_index_by_Some)
  then show ?thesis using assms by (simp add: undo_def Let_def)
qed

text \<open>
  Claim C2, on the code. The log holds one stroke of \<open>user_a\<close>, who sends \<open>undo\<close>. The
  stroke is still in the log afterwards, followed by an undo marker that names it; the
  marker is sent to \<open>user_a\<close> and \<open>user_b\<close>.
\<close>

theorem undo_message_keeps_entry:
  "\<exists>srv' marker.
      handleMessage env0 ''user_a'' (JObj [(''type'', JStr ''undo'')]) server_a = Inr srv'
    \<and> srv_operations srv' = [stroke ''user_a'' ''op_1'', marker]
    \<and> get_prop marker ''type'' = JStr ''undo''
    \<and> get_prop marker ''targetOperationId'' = JStr ''op_1''
    \<and> frames_of srv' ''user_a'' = [JObj [(''type'', JStr ''undo''), (''data'', JObj marker)]]
    \<and> frames_of srv' ''user_b'' = [JObj [(''type'', JStr ''undo''), (''data'', JObj marker)]]
    \<and> frames_of srv' ''user_c'' = []"
  by (simp add: handleMessage_def handleUndo_def server_a_def example_server_def mk_client_def
      stroke_def nullish_def Let_def get_prop_def broadcast_def frames_of_def ws_send_def)

text \<open>
  The marker is itself an entry authored by the user, so a second undo names the first
  marker, not an earlier stroke.
\<close>

lemma second_undo_targets_marker:
  "\<exists>srv1 srv2 m1 m2.
      handleMessage env0 ''user_a'' (JObj [(''type'', JStr ''undo'')]) server_a = Inr srv1
    \<and> handleMessage env1 ''user_a'' (JObj [(''type'', JStr ''undo'')]) srv1 = Inr srv2
    \<and> srv_operations srv2 = [stroke ''user_a'' ''op_1'', m1, m2]
    \<and> get_prop m1 ''targetOperationId'' = JStr ''op_1''
    \<and> get_prop m2 ''targetOperationId'' = get_prop m1 ''operationId''"
  by (simp add: handleMessage_def handleUndo_def server_a_def example_server_def mk_client_def
      stroke_def nullish_def Let_def get_prop_def broadcast_def)

text \<open>On the sample log \<open>DrawingState.undo\<close> deletes the second stroke of \<open>user_b\<close>.\<close>

lemma undo_in_log_removes_stroke:
  "undo ''user_b'' log_b
     = (Some 1, log_b\<lparr>operations := [0], undoStack := [0]\<rparr>)"
  by (simp add: undo_def log_b_def appends_def addOperation_def newDrawingState_def stroke_def
      Let_def get_prop_def set_prop_def)

end
